theory Spec2Isabelle
  imports Main "HOL-Library.Sublist"
begin

section \<open>Python strings\<close>

text \<open>
  The sanitizer of \<^verbatim>\<open>backend/app/routers/modify.py\<close> works on Python \<^verbatim>\<open>str\<close> values,
  which are sequences of Unicode code points. A string is modelled as the list of its code
  points, each a natural number; \<open>py\<close> turns a literal into that form.
\<close>

type_synonym pystr = "nat list"

definition py :: "string \<Rightarrow> pystr" where
  "py s = map of_char s"

abbreviation NEWLINE :: nat where "NEWLINE \<equiv> 10"
abbreviation SPACE :: nat where "SPACE \<equiv> 32"
abbreviation DQUOTE :: nat where "DQUOTE \<equiv> 34"
abbreviation SQUOTE :: nat where "SQUOTE \<equiv> 39"
abbreviation COMMA :: nat where "COMMA \<equiv> 44"
abbreviation COLON :: nat where "COLON \<equiv> 58"
abbreviation SEMICOLON :: nat where "SEMICOLON \<equiv> 59"

text \<open>
  \<^verbatim>\<open>str.isspace\<close> on one code point; the same predicate decides \<^verbatim>\<open>str.strip()\<close> and the
  regular-expression class \<^verbatim>\<open>\s\<close> on \<^verbatim>\<open>str\<close> patterns.
\<close>

definition isspace :: "nat \<Rightarrow> bool" where
  "isspace c \<longleftrightarrow>
     (9 \<le> c \<and> c \<le> 13) \<or> (28 \<le> c \<and> c \<le> 32) \<or> c = 133 \<or> c = 160 \<or> c = 5760 \<or>
     (8192 \<le> c \<and> c \<le> 8202) \<or> c = 8232 \<or> c = 8233 \<or> c = 8239 \<or> c = 8287 \<or> c = 12288"

definition strip_with :: "(nat \<Rightarrow> bool) \<Rightarrow> pystr \<Rightarrow> pystr" where
  "strip_with p s = rev (dropWhile p (rev (dropWhile p s)))"

definition strip :: "pystr \<Rightarrow> pystr" where
  \<comment> \<open>\<^verbatim>\<open>s.strip()\<close>\<close>
  "strip s = strip_with isspace s"

definition strip_chars :: "pystr \<Rightarrow> pystr \<Rightarrow> pystr" where
  \<comment> \<open>\<^verbatim>\<open>s.strip(chars)\<close>\<close>
  "strip_chars chars s = strip_with (\<lambda>c. c \<in> set chars) s"

definition startswith :: "pystr \<Rightarrow> pystr \<Rightarrow> bool" where
  \<comment> \<open>\<^verbatim>\<open>s.startswith(p)\<close>\<close>
  "startswith s p \<longleftrightarrow> take (length p) s = p"

fun py_split :: "nat \<Rightarrow> pystr \<Rightarrow> pystr list" where
  \<comment> \<open>\<^verbatim>\<open>s.split(sep)\<close> for a separator of one character\<close>
  "py_split sep [] = [[]]"
| "py_split sep (c # cs) =
     (if c = sep then [] # py_split sep cs
      else (case py_split sep cs of [] \<Rightarrow> [[c]] | p # ps \<Rightarrow> (c # p) # ps))"

fun py_join :: "pystr \<Rightarrow> pystr list \<Rightarrow> pystr" where
  \<comment> \<open>\<^verbatim>\<open>sep.join(xs)\<close>\<close>
  "py_join sep [] = []"
| "py_join sep [x] = x"
| "py_join sep (x # y # ys) = x @ sep @ py_join sep (y # ys)"

definition replace_char :: "nat \<Rightarrow> pystr \<Rightarrow> pystr \<Rightarrow> pystr" where
  \<comment> \<open>\<^verbatim>\<open>s.replace(old, new)\<close> for \<^verbatim>\<open>old\<close> of one character\<close>
  "replace_char old new s = concat (map (\<lambda>c. if c = old then new else [c]) s)"

section \<open>Regular expressions\<close>

text \<open>
  The three patterns of the source use literals, character classes, greedy repetition of
  a character class, sequencing and one capturing group. \<open>rx_run\<close> lists the ways a
  pattern can match at the start of the input, in the order in which a backtracking
  matcher tries them (a greedy repetition gives the longest run first); each way is the
  input left over and the groups captured so far. \<^verbatim>\<open>re.match\<close> takes the first one.
\<close>

datatype rx =
    Str pystr
  | Cls "nat \<Rightarrow> bool"
  | Star "nat \<Rightarrow> bool"
  | Plus "nat \<Rightarrow> bool"
  | Cat rx rx
  | Grp rx

fun rx_run :: "rx \<Rightarrow> pystr \<times> pystr list \<Rightarrow> (pystr \<times> pystr list) list" where
  "rx_run (Str l) (s, gs) = (if take (length l) s = l then [(drop (length l) s, gs)] else [])"
| "rx_run (Cls p) (s, gs) = (case s of [] \<Rightarrow> [] | c # cs \<Rightarrow> if p c then [(cs, gs)] else [])"
| "rx_run (Star p) (s, gs) =
     map (\<lambda>k. (drop k s, gs)) (rev [0 ..< Suc (length (takeWhile p s))])"
| "rx_run (Plus p) (s, gs) =
     map (\<lambda>k. (drop k s, gs)) (rev [1 ..< Suc (length (takeWhile p s))])"
| "rx_run (Cat a b) st = concat (map (rx_run b) (rx_run a st))"
| "rx_run (Grp a) (s, gs) =
     map (\<lambda>(s', gs'). (s', gs' @ [take (length s - length s') s])) (rx_run a (s, gs))"

definition re_match :: "rx \<Rightarrow> pystr \<Rightarrow> pystr list option" where
  \<comment> \<open>\<^verbatim>\<open>re.match(pattern, s)\<close>: the groups of the first match, or \<^verbatim>\<open>None\<close>\<close>
  "re_match r s = (case rx_run r (s, []) of [] \<Rightarrow> None | (rest, gs) # alts \<Rightarrow> Some gs)"

datatype error = IndexError

definition match_group :: "pystr list \<Rightarrow> nat \<Rightarrow> error + pystr" where
  \<comment> \<open>\<^verbatim>\<open>m.group(i)\<close> for \<^verbatim>\<open>i >= 1\<close>; a pattern without that group raises \<^verbatim>\<open>IndexError\<close>\<close>
  "match_group m i = (if 1 \<le> i \<and> i \<le> length m then Inr (m ! (i - 1)) else Inl IndexError)"

definition ident_start :: "nat \<Rightarrow> bool" where
  \<comment> \<open>\<^verbatim>\<open>[A-Za-z_]\<close>\<close>
  "ident_start c \<longleftrightarrow> (65 \<le> c \<and> c \<le> 90) \<or> (97 \<le> c \<and> c \<le> 122) \<or> c = 95"

definition ident_char :: "nat \<Rightarrow> bool" where
  \<comment> \<open>\<^verbatim>\<open>[A-Za-z0-9_]\<close>\<close>
  "ident_char c \<longleftrightarrow> (65 \<le> c \<and> c \<le> 90) \<or> (97 \<le> c \<and> c \<le> 122) \<or> (48 \<le> c \<and> c \<le> 57) \<or> c = 95"

definition not_dquote :: "nat \<Rightarrow> bool" where
  \<comment> \<open>\<^verbatim>\<open>[^"]\<close>\<close>
  "not_dquote c \<longleftrightarrow> c \<noteq> DQUOTE"

definition not_terminator :: "nat \<Rightarrow> bool" where
  \<comment> \<open>\<^verbatim>\<open>[^;:]\<close>\<close>
  "not_terminator c \<longleftrightarrow> c \<noteq> SEMICOLON \<and> c \<noteq> COLON"

definition subgraph_explicit_rx :: rx where
  \<comment> \<open>\<^verbatim>\<open>r"subgraph\s+([A-Za-z_][A-Za-z0-9_]*)"\<close>\<close>
  "subgraph_explicit_rx =
     Cat (Str (py ''subgraph'')) (Cat (Plus isspace) (Grp (Cat (Cls ident_start) (Star ident_char))))"

definition subgraph_label_rx :: rx where
  \<comment> \<open>\<^verbatim>\<open>r'subgraph\s+"([^"]+)"'\<close>\<close>
  "subgraph_label_rx =
     Cat (Str (py ''subgraph'')) (Cat (Plus isspace)
       (Cat (Str [DQUOTE]) (Cat (Grp (Plus not_dquote)) (Str [DQUOTE]))))"

definition class_rx :: rx where
  \<comment> \<open>\<^verbatim>\<open>r"class\s+([^;:]+)"\<close>\<close>
  "class_rx = Cat (Str (py ''class'')) (Cat (Plus isspace) (Grp (Plus not_terminator)))"

section \<open>The sanitizer\<close>

text \<open>
  The body of the first loop of \<open>clean_invalid_class_statements\<close>: one line, and
  the set \<open>subgraph_ids\<close> before and after it.
\<close>

definition collect_line :: "pystr \<Rightarrow> pystr set \<Rightarrow> error + pystr set" where
  "collect_line line subgraph_ids =
     (let line_stripped = strip line in
      case (case re_match subgraph_explicit_rx line_stripped of
              None \<Rightarrow> Inr subgraph_ids
            | Some subgraph_explicit_match \<Rightarrow>
                (case match_group subgraph_explicit_match 1 of
                   Inl e \<Rightarrow> Inl e
                 | Inr g \<Rightarrow> Inr (insert g subgraph_ids))) of
        Inl e \<Rightarrow> Inl e
      | Inr ids1 \<Rightarrow>
          (case re_match subgraph_label_rx line_stripped of
             None \<Rightarrow> Inr ids1
           | Some subgraph_label_match \<Rightarrow>
               (case match_group subgraph_label_match 1 of
                  Inl e \<Rightarrow> Inl e
                | Inr label \<Rightarrow>
                    (let ids2 = insert label ids1;
                         sanitized = replace_char SQUOTE [] (replace_char SPACE [] label)
                     in Inr (if sanitized \<noteq> [] then insert sanitized ids2 else ids2)))))"

fun first_pass :: "pystr list \<Rightarrow> pystr set \<Rightarrow> error + pystr set" where
  "first_pass [] subgraph_ids = Inr subgraph_ids"
| "first_pass (line # rest) subgraph_ids =
     (case collect_line line subgraph_ids of
        Inl e \<Rightarrow> Inl e
      | Inr ids' \<Rightarrow> first_pass rest ids')"

text \<open>
  The body of the second loop decides whether the line is skipped (\<^verbatim>\<open>continue\<close>) or
  appended to \<open>cleaned_lines\<close>.
\<close>

definition has_subgraph_id :: "pystr set \<Rightarrow> pystr list \<Rightarrow> bool" where
  "has_subgraph_id subgraph_ids ids =
     list_ex (\<lambda>id. id \<in> subgraph_ids \<or> SPACE \<in> set id \<or> SQUOTE \<in> set id) ids"

definition skips_line :: "pystr set \<Rightarrow> pystr \<Rightarrow> error + bool" where
  "skips_line subgraph_ids line =
     (if startswith (strip line) (py ''class '') then
        (case re_match class_rx (strip line) of
           None \<Rightarrow> Inr False
         | Some class_match \<Rightarrow>
             (case match_group class_match 1 of
                Inl e \<Rightarrow> Inl e
              | Inr g \<Rightarrow>
                  (let ids_string = strip g;
                       ids = map (\<lambda>id. strip_chars [DQUOTE, SQUOTE] (strip id))
                                 (py_split COMMA ids_string)
                   in Inr (has_subgraph_id subgraph_ids ids))))
      else Inr False)"

fun second_pass :: "pystr set \<Rightarrow> pystr list \<Rightarrow> pystr list \<Rightarrow> error + pystr list" where
  "second_pass subgraph_ids [] cleaned_lines = Inr cleaned_lines"
| "second_pass subgraph_ids (line # rest) cleaned_lines =
     (case skips_line subgraph_ids line of
        Inl e \<Rightarrow> Inl e
      | Inr skip \<Rightarrow>
          if skip then second_pass subgraph_ids rest cleaned_lines
          else second_pass subgraph_ids rest (cleaned_lines @ [line]))"

definition clean_invalid_class_statements :: "pystr \<Rightarrow> error + pystr" where
  "clean_invalid_class_statements diagram =
     (let lines = py_split NEWLINE diagram in
      case first_pass lines {} of
        Inl e \<Rightarrow> Inl e
      | Inr subgraph_ids \<Rightarrow>
          (case second_pass subgraph_ids lines [] of
             Inl e \<Rightarrow> Inl e
           | Inr cleaned_lines \<Rightarrow> Inr (py_join [NEWLINE] cleaned_lines)))"

section \<open>Closed forms of the three matches and of the two loops\<close>

text \<open>
  The definitions of this section are not in the source. They say directly what
  \<^verbatim>\<open>re.match\<close> returns for each of the three patterns and what each loop computes;
  the lemmas below prove that the definitions above agree with them.
\<close>

fun firstg :: "(pystr \<times> pystr list) list \<Rightarrow> pystr list option" where
  "firstg [] = None"
| "firstg ((r, gs) # alts) = Some gs"

definition explicit_id :: "pystr \<Rightarrow> pystr option" where
  "explicit_id s =
     (if take 8 s = py ''subgraph'' \<and> takeWhile isspace (drop 8 s) \<noteq> [] then
        (case dropWhile isspace (drop 8 s) of
           [] \<Rightarrow> None
         | c # cs \<Rightarrow> if ident_start c then Some (c # takeWhile ident_char cs) else None)
      else None)"

definition quoted_label :: "pystr \<Rightarrow> pystr option" where
  "quoted_label s =
     (if take 8 s = py ''subgraph'' \<and> takeWhile isspace (drop 8 s) \<noteq> [] then
        (case dropWhile isspace (drop 8 s) of
           [] \<Rightarrow> None
         | c # u \<Rightarrow>
             if c = DQUOTE \<and> takeWhile not_dquote u \<noteq> [] \<and> dropWhile not_dquote u \<noteq> []
             then Some (takeWhile not_dquote u) else None)
      else None)"

definition class_targets :: "pystr \<Rightarrow> pystr option" where
  "class_targets s =
     (if take 5 s = py ''class'' \<and> takeWhile isspace (drop 5 s) \<noteq> [] then
        (let w = takeWhile isspace (drop 5 s); t = dropWhile isspace (drop 5 s) in
         if takeWhile not_terminator t \<noteq> [] then Some (takeWhile not_terminator t)
         else if 2 \<le> length w then Some [last w]
         else None)
      else None)"

definition sanitized_label :: "pystr \<Rightarrow> pystr" where
  "sanitized_label label = replace_char SQUOTE [] (replace_char SPACE [] label)"

definition line_ids :: "pystr \<Rightarrow> pystr set" where
  "line_ids line =
     (case explicit_id (strip line) of None \<Rightarrow> {} | Some g \<Rightarrow> {g}) \<union>
     (case quoted_label (strip line) of
        None \<Rightarrow> {}
      | Some label \<Rightarrow> {label} \<union> (if sanitized_label label \<noteq> [] then {sanitized_label label} else {}))"

definition ids_of_lines :: "pystr list \<Rightarrow> pystr set" where
  "ids_of_lines ls = (\<Union>l \<in> set ls. line_ids l)"

definition targets_of :: "pystr \<Rightarrow> pystr list" where
  "targets_of g = map (\<lambda>id. strip_chars [DQUOTE, SQUOTE] (strip id)) (py_split COMMA (strip g))"

definition drops :: "pystr set \<Rightarrow> pystr \<Rightarrow> bool" where
  "drops S line \<longleftrightarrow>
     startswith (strip line) (py ''class '') \<and>
     (case class_targets (strip line) of
        None \<Rightarrow> False
      | Some g \<Rightarrow> has_subgraph_id S (targets_of g))"

definition kept_lines :: "pystr \<Rightarrow> pystr list" where
  "kept_lines d =
     filter (\<lambda>l. \<not> drops (ids_of_lines (py_split NEWLINE d)) l) (py_split NEWLINE d)"

section \<open>The class-statement filter as the specification words it\<close>

text \<open>
  The targets clause of a trimmed class statement, as the specification describes it: the
  substring after \<^verbatim>\<open>class\<close> and the whitespace that follows it, up to but not
  including the first \<^verbatim>\<open>;\<close> or \<^verbatim>\<open>:\<close>, or the whole remainder. Its cleaned
  targets are the comma-separated pieces, trimmed of whitespace and then of surrounding
  quote characters. These two definitions follow the specification, not the source.
\<close>

definition spec_targets_clause :: "pystr \<Rightarrow> pystr" where
  "spec_targets_clause s = takeWhile not_terminator (dropWhile isspace (drop 5 s))"

definition spec_cleaned_targets :: "pystr \<Rightarrow> pystr list" where
  "spec_cleaned_targets s =
     map (\<lambda>piece. strip_chars [DQUOTE, SQUOTE] (strip piece)) (py_split COMMA (spec_targets_clause s))"

text \<open>
  The normalized variant of a quoted label, as the specification describes it: the label
  with every space character and every single-quote character deleted.
\<close>

definition spec_normalized :: "pystr \<Rightarrow> pystr" where
  "spec_normalized label = filter (\<lambda>c. c \<noteq> SPACE \<and> c \<noteq> SQUOTE) label"

section \<open>The matcher on the three patterns\<close>

lemma re_match_firstg: "re_match r s = firstg (rx_run r (s, []))"
  by (cases "rx_run r (s, [])") (auto simp: re_match_def)

lemma firstg_append: "firstg (xs @ ys) = (case firstg xs of None \<Rightarrow> firstg ys | Some g \<Rightarrow> Some g)"
  by (cases xs) auto

lemma drop_in_run:
  assumes "k < length (takeWhile p s)"
  shows "\<exists>c cs. drop k s = c # cs \<and> p c"
proof -
  have k: "k < length s" using assms length_takeWhile_le [of p s] by (meson less_le_trans)
  have "s ! k = takeWhile p s ! k" using assms by (simp add: takeWhile_nth)
  moreover have "takeWhile p s ! k \<in> set (takeWhile p s)" using assms by simp
  ultimately have "p (s ! k)" by (metis set_takeWhileD)
  moreover have "drop k s = s ! k # drop (Suc k) s" using k by (simp add: Cons_nth_drop_Suc)
  ultimately show ?thesis by blast
qed

lemma concat_fail:
  assumes "\<And>x. x \<in> set xs \<Longrightarrow> f x = []"
  shows "concat (map f xs) = []"
  using assms by (induction xs) auto

lemma plus_then_fail:
  assumes fail: "\<And>c cs. p c \<Longrightarrow> f (c # cs, gs) = []"
  shows "concat (map f (rx_run (Plus p) (s, gs))) =
         (if takeWhile p s = [] then [] else f (dropWhile p s, gs))"
proof (cases "takeWhile p s = []")
  case True
  then show ?thesis by simp
next
  case False
  define n where "n = length (takeWhile p s)"
  have n: "0 < n" using False by (simp add: n_def)
  have upt: "rev [1 ..< Suc n] = n # rev [1 ..< n]" using n by simp
  have dn: "drop n s = dropWhile p s" by (simp add: n_def dropWhile_eq_drop)
  have "concat (map f (map (\<lambda>k. (drop k s, gs)) (rev [1 ..< n]))) = []"
  proof (rule concat_fail)
    fix x assume "x \<in> set (map (\<lambda>k. (drop k s, gs)) (rev [1 ..< n]))"
    then obtain k where k: "k < n" and x: "x = (drop k s, gs)" by auto
    from drop_in_run [of k p s] k obtain c cs where "drop k s = c # cs" "p c"
      by (auto simp: n_def)
    then show "f x = []" using fail x by simp
  qed
  then show ?thesis using False upt dn by (simp add: n_def [symmetric])
qed

lemma len_subgraph: "length (py ''subgraph'') = 8"
  by (simp add: py_def)

lemma len_class: "length (py ''class'') = 5"
  by (simp add: py_def)

lemma rev_upt_Suc: "i \<le> n \<Longrightarrow> rev [i ..< Suc n] = n # rev [i ..< n]"
  by simp

lemma take_run: "take (length (takeWhile p s)) s = takeWhile p s"
  by (metis takeWhile_eq_take)

lemma drop_run: "drop (length (takeWhile p s)) s = dropWhile p s"
  by (metis dropWhile_eq_drop)

lemma isspace_not_ident: "isspace c \<Longrightarrow> \<not> ident_start c"
  by (auto simp: isspace_def ident_start_def)

lemma isspace_not_terminator: "isspace c \<Longrightarrow> not_terminator c"
  by (auto simp: isspace_def not_terminator_def)

lemma isspace_not_dquote: "isspace c \<Longrightarrow> c \<noteq> DQUOTE"
  by (auto simp: isspace_def)

lemma rx_run_Star_hd:
  "rx_run (Star p) (s, gs) =
     (dropWhile p s, gs) # map (\<lambda>k. (drop k s, gs)) (rev [0 ..< length (takeWhile p s)])"
  by (simp add: drop_run)

lemma rx_run_Plus_hd:
  "rx_run (Plus p) (s, gs) =
     (if takeWhile p s = [] then []
      else (dropWhile p s, gs) # map (\<lambda>k. (drop k s, gs)) (rev [1 ..< length (takeWhile p s)]))"
proof (cases "takeWhile p s = []")
  case True
  then show ?thesis by simp
next
  case False
  then have "1 \<le> length (takeWhile p s)" by (simp add: Suc_leI)
  then show ?thesis using False by (simp add: drop_run del: upt_Suc add: rev_upt_Suc)
qed

lemma group_len:
  "length s - length (dropWhile p s) = length (takeWhile p s)"
proof -
  have "length (takeWhile p s) + length (dropWhile p s) = length s"
    by (metis length_append takeWhile_dropWhile_id)
  then show ?thesis by arith
qed

lemma firstg_ident:
  "firstg (rx_run (Grp (Cat (Cls ident_start) (Star ident_char))) (t, gs)) =
     (case t of [] \<Rightarrow> None
      | c # cs \<Rightarrow> if ident_start c then Some (gs @ [c # takeWhile ident_char cs]) else None)"
proof (cases t)
  case Nil
  then show ?thesis by simp
next
  case (Cons c cs)
  show ?thesis
  proof (cases "ident_start c")
    case False
    then show ?thesis using Cons by simp
  next
    case True
    have "length (takeWhile ident_char cs) + length (dropWhile ident_char cs) = length cs"
      by (metis length_append takeWhile_dropWhile_id)
    then have len: "Suc (length cs) - length (dropWhile ident_char cs)
                    = Suc (length (takeWhile ident_char cs))" by arith
    have "rx_run (Cat (Cls ident_start) (Star ident_char)) (t, gs)
          = rx_run (Star ident_char) (cs, gs)" using Cons True by simp
    then show ?thesis using Cons True
      by (simp only: rx_run.simps(6) rx_run_Star_hd list.map prod.case firstg.simps
            list.case if_True len length_Cons take_Suc_Cons take_run)
  qed
qed

lemma firstg_Grp_Plus:
  "firstg (rx_run (Grp (Plus p)) (t, gs)) =
     (if takeWhile p t = [] then None else Some (gs @ [takeWhile p t]))"
  by (simp only: rx_run.simps(6) rx_run_Plus_hd group_len take_run list.map prod.case
        firstg.simps split: if_splits) simp

lemma re_match_explicit:
  "re_match subgraph_explicit_rx s = map_option (\<lambda>g. [g]) (explicit_id s)"
proof -
  let ?G = "Grp (Cat (Cls ident_start) (Star ident_char))"
  have fail: "\<And>c cs. isspace c \<Longrightarrow> rx_run ?G (c # cs, []) = []"
    by (simp add: isspace_not_ident)
  have run: "rx_run subgraph_explicit_rx (s, []) =
        (if take 8 s = py ''subgraph'' then
           (if takeWhile isspace (drop 8 s) = [] then []
            else rx_run ?G (dropWhile isspace (drop 8 s), []))
         else [])"
    unfolding subgraph_explicit_rx_def rx_run.simps(5) rx_run.simps(1) len_subgraph
    using plus_then_fail [of isspace "rx_run ?G" "[]" "drop 8 s", OF fail]
    by (simp del: rx_run.simps)
  show ?thesis
  proof (cases "take 8 s = py ''subgraph'' \<and> takeWhile isspace (drop 8 s) \<noteq> []")
    case True
    then show ?thesis
      unfolding re_match_firstg run explicit_id_def
      by (cases "dropWhile isspace (drop 8 s)")
        (simp_all add: firstg_ident del: rx_run.simps dropWhile_eq_Nil_conv)
  next
    case False
    then show ?thesis
      unfolding re_match_firstg run explicit_id_def
      by (auto simp del: rx_run.simps)
  qed
qed

lemma hd_dropWhile_dquote: "dropWhile not_dquote u \<noteq> [] \<Longrightarrow> take 1 (dropWhile not_dquote u) = [DQUOTE]"
proof -
  assume ne: "dropWhile not_dquote u \<noteq> []"
  then have "\<not> not_dquote (hd (dropWhile not_dquote u))" by (rule hd_dropWhile)
  then have "hd (dropWhile not_dquote u) = DQUOTE" by (simp add: not_dquote_def)
  then show ?thesis using ne by (cases "dropWhile not_dquote u") simp_all
qed

lemma firstg_quoted:
  "firstg (rx_run (Cat (Str [DQUOTE]) (Cat (Grp (Plus not_dquote)) (Str [DQUOTE]))) (t, gs)) =
     (case t of [] \<Rightarrow> None
      | c # u \<Rightarrow>
          if c = DQUOTE \<and> takeWhile not_dquote u \<noteq> [] \<and> dropWhile not_dquote u \<noteq> []
          then Some (gs @ [takeWhile not_dquote u]) else None)"
proof (cases t)
  case Nil
  then show ?thesis by simp
next
  case (Cons c u)
  show ?thesis
  proof (cases "c = DQUOTE")
    case False
    then show ?thesis using Cons by simp
  next
    case True
    let ?f = "\<lambda>st. rx_run (Str [DQUOTE])
                 ((\<lambda>(s', gs'). (s', gs' @ [take (length u - length s') u])) st)"
    have fail: "\<And>c cs. not_dquote c \<Longrightarrow> ?f (c # cs, gs) = []"
      by (simp add: not_dquote_def)
    have "rx_run (Cat (Str [DQUOTE]) (Cat (Grp (Plus not_dquote)) (Str [DQUOTE]))) (t, gs)
          = concat (map ?f (rx_run (Plus not_dquote) (u, gs)))"
      using Cons True by (simp add: comp_def del: rx_run.simps(4))
    also have "\<dots> = (if takeWhile not_dquote u = [] then [] else ?f (dropWhile not_dquote u, gs))"
      by (rule plus_then_fail [of not_dquote ?f gs u, OF fail])
    finally have run: "rx_run (Cat (Str [DQUOTE]) (Cat (Grp (Plus not_dquote)) (Str [DQUOTE]))) (t, gs)
          = (if takeWhile not_dquote u = [] then [] else ?f (dropWhile not_dquote u, gs))" .
    show ?thesis
    proof (cases "takeWhile not_dquote u \<noteq> [] \<and> dropWhile not_dquote u \<noteq> []")
      case True
      then show ?thesis using Cons \<open>c = DQUOTE\<close> hd_dropWhile_dquote [of u]
        unfolding run by (simp add: group_len take_run del: dropWhile_eq_Nil_conv)
    next
      case False
      then show ?thesis using Cons \<open>c = DQUOTE\<close>
        unfolding run by (auto simp del: dropWhile_eq_Nil_conv)
    qed
  qed
qed

lemma re_match_label:
  "re_match subgraph_label_rx s = map_option (\<lambda>g. [g]) (quoted_label s)"
proof -
  let ?K = "Cat (Str [DQUOTE]) (Cat (Grp (Plus not_dquote)) (Str [DQUOTE]))"
  have fail: "\<And>c cs. isspace c \<Longrightarrow> rx_run ?K (c # cs, []) = []"
    using isspace_not_dquote by simp
  have run: "rx_run subgraph_label_rx (s, []) =
        (if take 8 s = py ''subgraph'' then
           (if takeWhile isspace (drop 8 s) = [] then []
            else rx_run ?K (dropWhile isspace (drop 8 s), []))
         else [])"
    unfolding subgraph_label_rx_def rx_run.simps(5) [of "Str (py ''subgraph'')"]
      rx_run.simps(5) [of "Plus isspace"] rx_run.simps(1) [of "py ''subgraph''"] len_subgraph
    using plus_then_fail [of isspace "rx_run ?K" "[]" "drop 8 s", OF fail]
    by (simp del: rx_run.simps)
  show ?thesis
  proof (cases "take 8 s = py ''subgraph'' \<and> takeWhile isspace (drop 8 s) \<noteq> []")
    case True
    then show ?thesis
      unfolding re_match_firstg run quoted_label_def
      by (cases "dropWhile isspace (drop 8 s)")
        (simp_all add: firstg_quoted del: rx_run.simps dropWhile_eq_Nil_conv)
  next
    case False
    then show ?thesis
      unfolding re_match_firstg run quoted_label_def
      by (auto simp del: rx_run.simps)
  qed
qed

lemma drop_append_le: "n \<le> length xs \<Longrightarrow> drop n (xs @ ys) = drop n xs @ ys"
  by simp

lemma drop_last: "w \<noteq> [] \<Longrightarrow> drop (length w - 1) w = [last w]"
  by (induction w) (auto simp: drop_Cons')

lemma firstg_class_tail:
  "firstg (concat (map (rx_run (Grp (Plus not_terminator))) (rx_run (Plus isspace) (r, [])))) =
     (if takeWhile isspace r = [] then None
      else if takeWhile not_terminator (dropWhile isspace r) \<noteq> []
        then Some [takeWhile not_terminator (dropWhile isspace r)]
      else if 2 \<le> length (takeWhile isspace r) then Some [[last (takeWhile isspace r)]]
      else None)"
proof -
  let ?G = "Grp (Plus not_terminator)"
  let ?w = "takeWhile isspace r"
  let ?t = "dropWhile isspace r"
  show ?thesis
  proof (cases "?w = []")
    case True
    then show ?thesis by (simp add: rx_run_Plus_hd del: rx_run.simps)
  next
    case w: False
    have split: "rx_run (Plus isspace) (r, []) =
        (?t, []) # map (\<lambda>k. (drop k r, [])) (rev [1 ..< length ?w])"
      using w by (simp add: rx_run_Plus_hd del: rx_run.simps)
    show ?thesis
    proof (cases "takeWhile not_terminator ?t = []")
      case False
      then show ?thesis
        unfolding split using w
        by (simp add: firstg_append firstg_Grp_Plus del: rx_run.simps)
    next
      case nt: True
      show ?thesis
      proof (cases "2 \<le> length ?w")
        case False
        then have "length ?w = 1" using w by (cases ?w) (auto simp: not_le less_Suc_eq)
        then show ?thesis
          unfolding split using w nt
          by (simp add: firstg_append firstg_Grp_Plus del: rx_run.simps)
      next
        case two: True
        then obtain m where m: "length ?w = Suc m" and m1: "1 \<le> m"
          by (cases "length ?w") auto
        have upt: "rev [1 ..< length ?w] = (length ?w - 1) # rev [1 ..< length ?w - 1]"
          unfolding m using rev_upt_Suc [OF m1] by simp
        have "drop (length ?w - 1) (?w @ ?t) = drop (length ?w - 1) ?w @ ?t"
          by (rule drop_append_le) simp
        then have "drop (length ?w - 1) r = drop (length ?w - 1) ?w @ ?t"
          by (simp only: takeWhile_dropWhile_id)
        then have dl: "drop (length ?w - Suc 0) r = last ?w # ?t"
          using drop_last [OF w] by simp
        have "last ?w \<in> set ?w" using w by simp
        then have "isspace (last ?w)" by (metis set_takeWhileD)
        then have ntl: "not_terminator (last ?w)" by (rule isspace_not_terminator)
        then have tw: "takeWhile not_terminator (last ?w # ?t) = [last ?w]"
          using nt by simp
        show ?thesis
          unfolding split upt using w nt two ntl
          by (simp add: firstg_append firstg_Grp_Plus dl del: rx_run.simps)
      qed
    qed
  qed
qed

lemma re_match_class:
  "re_match class_rx s = map_option (\<lambda>g. [g]) (class_targets s)"
proof -
  have run: "rx_run class_rx (s, []) =
        (if take 5 s = py ''class''
         then concat (map (rx_run (Grp (Plus not_terminator))) (rx_run (Plus isspace) (drop 5 s, [])))
         else [])"
    unfolding class_rx_def rx_run.simps(5) [of "Str (py ''class'')"]
      rx_run.simps(5) [of "Plus isspace"] rx_run.simps(1) [of "py ''class''"] len_class
    by (simp del: rx_run.simps)
  show ?thesis
    unfolding re_match_firstg run class_targets_def
    by (simp only: firstg_class_tail Let_def firstg.simps split: if_splits) simp
qed

lemma group_single: "match_group [g] (Suc 0) = Inr g" "match_group [g] 1 = Inr g"
  by (simp_all add: match_group_def)

lemma collect_line_eq: "collect_line line S = Inr (S \<union> line_ids line)"
  unfolding collect_line_def line_ids_def re_match_explicit re_match_label sanitized_label_def
  by (cases "explicit_id (strip line)"; cases "quoted_label (strip line)")
     (auto simp: group_single Let_def)

lemma first_pass_eq: "first_pass ls S = Inr (S \<union> ids_of_lines ls)"
  by (induction ls arbitrary: S) (auto simp: collect_line_eq ids_of_lines_def)

lemma skips_line_eq: "skips_line S line = Inr (drops S line)"
  unfolding skips_line_def drops_def re_match_class targets_of_def
  by (cases "class_targets (strip line)") (auto simp: group_single Let_def)

lemma second_pass_eq:
  "second_pass S ls acc = Inr (acc @ filter (\<lambda>l. \<not> drops S l) ls)"
  by (induction ls arbitrary: acc) (auto simp: skips_line_eq)

lemma clean_eq:
  "clean_invalid_class_statements d =
     Inr (py_join [NEWLINE]
            (filter (\<lambda>l. \<not> drops (ids_of_lines (py_split NEWLINE d)) l) (py_split NEWLINE d)))"
  by (simp add: clean_invalid_class_statements_def first_pass_eq second_pass_eq Let_def)

lemma py_split_ne [simp]: "py_split sep s \<noteq> []"
  by (induction s) (auto split: list.splits)

lemma py_split_Cons:
  "py_split sep (c # cs) =
     (if c = sep then [] # py_split sep cs
      else (c # hd (py_split sep cs)) # tl (py_split sep cs))"
  by (cases "py_split sep cs") (use py_split_ne [of sep cs] in auto)

lemma py_split_no_sep: "p \<in> set (py_split sep s) \<Longrightarrow> sep \<notin> set p"
proof (induction s arbitrary: p)
  case Nil
  then show ?case by simp
next
  case (Cons c cs)
  show ?case
  proof (cases "c = sep")
    case True
    then show ?thesis using Cons by auto
  next
    case False
    obtain q qs where q: "py_split sep cs = q # qs" by (cases "py_split sep cs") (use py_split_ne in auto)
    then show ?thesis using Cons False by auto
  qed
qed

lemma py_join_Cons: "xs \<noteq> [] \<Longrightarrow> py_join sep (x # xs) = x @ sep @ py_join sep xs"
  by (cases xs) auto

lemma py_join_split: "py_join [sep] (py_split sep s) = s"
proof (induction s)
  case Nil
  then show ?case by simp
next
  case (Cons c cs)
  obtain q qs where q: "py_split sep cs = q # qs" by (cases "py_split sep cs") (use py_split_ne in auto)
  show ?case
  proof (cases "c = sep")
    case True
    then show ?thesis using Cons by (simp add: py_join_Cons)
  next
    case False
    then show ?thesis using Cons q by (cases qs) auto
  qed
qed

lemma py_split_append_sep:
  "sep \<notin> set x \<Longrightarrow> py_split sep (x @ sep # s) = x # py_split sep s"
  by (induction x) auto

lemma py_split_no_sep_id: "sep \<notin> set x \<Longrightarrow> py_split sep x = [x]"
  by (induction x) auto

lemma py_split_join:
  "xs \<noteq> [] \<Longrightarrow> (\<forall>x \<in> set xs. sep \<notin> set x) \<Longrightarrow> py_split sep (py_join [sep] xs) = xs"
proof (induction xs)
  case Nil
  then show ?case by simp
next
  case (Cons x xs)
  show ?case
  proof (cases "xs = []")
    case True
    then show ?thesis using Cons.prems by (simp add: py_split_no_sep_id)
  next
    case False
    then show ?thesis using Cons by (simp add: py_join_Cons py_split_append_sep)
  qed
qed

section \<open>The two passes\<close>

lemma passes_eq:
  "first_pass (py_split NEWLINE d) {} = Inr (ids_of_lines (py_split NEWLINE d))"
  "second_pass (ids_of_lines (py_split NEWLINE d)) (py_split NEWLINE d) [] = Inr (kept_lines d)"
  "clean_invalid_class_statements d = Inr (py_join [NEWLINE] (kept_lines d))"
  by (simp_all add: first_pass_eq second_pass_eq clean_eq kept_lines_def)

lemma startswith_class_take5:
  "startswith s (py ''class '') \<Longrightarrow> take 5 s = py ''class''"
proof -
  assume "startswith s (py ''class '')"
  moreover have "length (py ''class '') = 6" by (simp add: py_def)
  ultimately have "take 6 s = py ''class ''" by (simp only: startswith_def)
  then have "take 5 (take 6 s) = take 5 (py ''class '')" by simp
  then show ?thesis by (simp add: py_def)
qed

lemma subgraph_not_class:
  "take 8 s = py ''subgraph'' \<Longrightarrow> \<not> startswith s (py ''class '')"
proof
  assume a: "take 8 s = py ''subgraph''" and b: "startswith s (py ''class '')"
  from b have "take 1 (take 5 s) = take 1 (py ''class'')" by (simp add: startswith_class_take5)
  moreover from a have "take 1 (take 8 s) = take 1 (py ''subgraph'')" by simp
  ultimately show False by (simp add: py_def)
qed

lemma line_ids_take8: "line_ids l \<noteq> {} \<Longrightarrow> take 8 (strip l) = py ''subgraph''"
  by (auto simp: line_ids_def explicit_id_def quoted_label_def split: option.splits if_splits)

lemma decl_not_dropped: "line_ids l \<noteq> {} \<Longrightarrow> \<not> drops S l"
  using line_ids_take8 [of l] subgraph_not_class [of "strip l"] by (auto simp: drops_def)

lemma ids_of_kept:
  "ids_of_lines (filter (\<lambda>l. \<not> drops S l) ls) = ids_of_lines ls"
  using decl_not_dropped by (fastforce simp: ids_of_lines_def)

lemma empty_not_id: "[] \<notin> line_ids l"
  by (auto simp: line_ids_def explicit_id_def quoted_label_def split: option.splits if_splits list.splits)

lemma empty_not_in_ids: "[] \<notin> ids_of_lines ls"
  by (simp add: ids_of_lines_def empty_not_id)

lemma not_class_kept: "\<not> startswith (strip l) (py ''class '') \<Longrightarrow> \<not> drops S l"
  by (simp add: drops_def)

lemma kept_lines_no_newline: "l \<in> set (kept_lines d) \<Longrightarrow> NEWLINE \<notin> set l"
  by (auto simp: kept_lines_def dest: py_split_no_sep)

lemma split_join_kept:
  "kept_lines d \<noteq> [] \<Longrightarrow> py_split NEWLINE (py_join [NEWLINE] (kept_lines d)) = kept_lines d"
  by (rule py_split_join) (auto dest: kept_lines_no_newline)

lemma empty_line_kept: "\<not> drops S []"
  by (simp add: drops_def strip_def strip_with_def startswith_def py_def)

lemma clean_idem_aux:
  "py_join [NEWLINE] (kept_lines (py_join [NEWLINE] (kept_lines d))) = py_join [NEWLINE] (kept_lines d)"
proof (cases "kept_lines d = []")
  case True
  then show ?thesis by (simp add: kept_lines_def [of "[]"] empty_line_kept)
next
  case False
  have ids: "ids_of_lines (kept_lines d) = ids_of_lines (py_split NEWLINE d)"
    unfolding kept_lines_def by (rule ids_of_kept)
  have "kept_lines (py_join [NEWLINE] (kept_lines d))
        = filter (\<lambda>l. \<not> drops (ids_of_lines (kept_lines d)) l) (kept_lines d)"
    using split_join_kept [OF False] by (simp add: kept_lines_def [of "py_join [NEWLINE] (kept_lines d)"])
  also have "\<dots> = kept_lines d"
    unfolding ids by (simp add: kept_lines_def)
  finally show ?thesis by simp
qed

section \<open>Trimming and splitting\<close>

lemma strip_with_lead: "p c \<Longrightarrow> strip_with p (c # s) = strip_with p s"
  by (simp add: strip_with_def)

lemma strip_with_trail: "p c \<Longrightarrow> strip_with p (s @ [c]) = strip_with p s"
proof (cases "\<forall>x \<in> set s. p x")
  case True
  assume "p c"
  moreover have "dropWhile p s = []" using True by simp
  ultimately show ?thesis using True by (simp add: strip_with_def del: dropWhile_eq_Nil_conv)
next
  case False
  assume "p c"
  from False obtain x where "x \<in> set s" "\<not> p x" by blast
  then have "dropWhile p (s @ [c]) = dropWhile p s @ [c]" by (rule dropWhile_append1)
  then show ?thesis using \<open>p c\<close> by (simp add: strip_with_def)
qed

lemma py_split_lead:
  assumes "p c" "\<not> p sep"
  shows "map (strip_with p) (py_split sep (c # cs)) = map (strip_with p) (py_split sep cs)"
proof -
  obtain q qs where q: "py_split sep cs = q # qs"
    by (cases "py_split sep cs") (use py_split_ne in auto)
  have "c \<noteq> sep" using assms by auto
  then show ?thesis using q assms by (simp add: strip_with_lead)
qed

lemma py_split_dropWhile:
  "\<not> p sep \<Longrightarrow> map (strip_with p) (py_split sep (dropWhile p s)) = map (strip_with p) (py_split sep s)"
proof (induction s)
  case Nil
  then show ?case by simp
next
  case (Cons c cs)
  then show ?case using py_split_lead [of p c sep cs] by (cases "p c") simp_all
qed

lemma py_split_snoc:
  "c \<noteq> sep \<Longrightarrow>
   py_split sep (s @ [c]) = butlast (py_split sep s) @ [last (py_split sep s) @ [c]]"
proof (induction s)
  case Nil
  then show ?case by simp
next
  case (Cons a s)
  obtain q qs where q: "py_split sep s = q # qs"
    by (cases "py_split sep s") (use py_split_ne in auto)
  show ?case
  proof (cases "a = sep")
    case True
    then show ?thesis using Cons q by simp
  next
    case False
    then show ?thesis using Cons q by (cases qs) simp_all
  qed
qed

lemma py_split_trail:
  assumes "p c" "\<not> p sep"
  shows "map (strip_with p) (py_split sep (s @ [c])) = map (strip_with p) (py_split sep s)"
proof -
  let ?qs = "py_split sep s"
  have ne: "?qs \<noteq> []" by simp
  have "c \<noteq> sep" using assms by auto
  then have "map (strip_with p) (py_split sep (s @ [c]))
             = map (strip_with p) (butlast ?qs) @ [strip_with p (last ?qs @ [c])]"
    by (simp add: py_split_snoc)
  also have "\<dots> = map (strip_with p) (butlast ?qs) @ [strip_with p (last ?qs)]"
    using assms by (simp add: strip_with_trail)
  also have "\<dots> = map (strip_with p) (butlast ?qs @ [last ?qs])"
    by (simp only: map_append list.map)
  also have "\<dots> = map (strip_with p) ?qs" using ne by simp
  finally show ?thesis .
qed

lemma py_split_rstrip:
  "\<not> p sep \<Longrightarrow>
   map (strip_with p) (py_split sep (rev (dropWhile p (rev s)))) = map (strip_with p) (py_split sep s)"
proof (induction s rule: rev_induct)
  case Nil
  then show ?case by simp
next
  case (snoc c s)
  then show ?case using py_split_trail [of p c sep s] by (cases "p c") simp_all
qed

lemma py_split_strip:
  "\<not> p sep \<Longrightarrow>
   map (strip_with p) (py_split sep (strip_with p s)) = map (strip_with p) (py_split sep s)"
  unfolding strip_with_def [of p s]
  by (simp add: py_split_rstrip py_split_dropWhile)

lemma comma_not_space: "\<not> isspace COMMA"
  by (simp add: isspace_def)

lemma targets_of_unstripped:
  "targets_of g = map (\<lambda>piece. strip_chars [DQUOTE, SQUOTE] (strip piece)) (py_split COMMA g)"
proof -
  have "map strip (py_split COMMA (strip g)) = map strip (py_split COMMA g)"
    using py_split_strip [of isspace COMMA g] comma_not_space
    by (simp add: strip_def [abs_def])
  then have "map (strip_chars [DQUOTE, SQUOTE]) (map strip (py_split COMMA (strip g)))
             = map (strip_chars [DQUOTE, SQUOTE]) (map strip (py_split COMMA g))" by simp
  then show ?thesis by (simp add: targets_of_def comp_def)
qed

lemma strip_single_space: "isspace c \<Longrightarrow> strip [c] = []"
  by (simp add: strip_def strip_with_def)

lemma class_targets_spec:
  assumes "class_targets s = Some g"
  shows "targets_of g = spec_cleaned_targets s"
proof (cases "takeWhile not_terminator (dropWhile isspace (drop 5 s)) = []")
  case False
  then have "g = spec_targets_clause s"
    using assms by (auto simp: class_targets_def spec_targets_clause_def Let_def split: if_splits)
  then show ?thesis by (simp add: targets_of_unstripped spec_cleaned_targets_def)
next
  case True
  let ?w = "takeWhile isspace (drop 5 s)"
  from True assms have g: "g = [last ?w]" and w: "?w \<noteq> []"
    by (auto simp: class_targets_def Let_def split: if_splits)
  have "last ?w \<in> set ?w" using w by simp
  then have "isspace (last ?w)" by (metis set_takeWhileD)
  then have "strip g = []" using g by (simp add: strip_single_space)
  then have "targets_of g = [strip_chars [DQUOTE, SQUOTE] (strip [])]"
    by (simp add: targets_of_def)
  moreover have "spec_cleaned_targets s = [strip_chars [DQUOTE, SQUOTE] (strip [])]"
    using True by (simp add: spec_cleaned_targets_def spec_targets_clause_def)
  ultimately show ?thesis by simp
qed

lemma class_targets_None_spec:
  assumes "startswith s (py ''class '')" "class_targets s = None"
  shows "spec_cleaned_targets s = [[]]"
proof -
  have l6: "length (py ''class '') = 6" by (simp add: py_def)
  have t6: "take 6 s = py ''class ''" using assms(1) by (simp only: startswith_def l6)
  have t5: "take 5 s = py ''class''" using assms(1) by (rule startswith_class_take5)
  have "take 1 (drop 5 (take 6 s)) = [SPACE]" unfolding t6 by (simp add: py_def)
  then have "take 1 (drop 5 s) = [SPACE]" by (simp add: drop_take)
  then obtain r where r: "drop 5 s = SPACE # r" by (cases "drop 5 s") simp_all
  have "isspace SPACE" by (simp add: isspace_def)
  then have "takeWhile isspace (drop 5 s) \<noteq> []" using r by simp
  then have "takeWhile not_terminator (dropWhile isspace (drop 5 s)) = []"
    using assms(2) t5 by (auto simp: class_targets_def Let_def split: if_splits)
  then show ?thesis
    by (simp add: spec_cleaned_targets_def spec_targets_clause_def strip_def strip_chars_def strip_with_def)
qed

lemma drops_spec:
  assumes "startswith (strip l) (py ''class '')"
    and "class_targets (strip l) = None \<Longrightarrow> [] \<notin> S"
  shows "drops S l \<longleftrightarrow>
         list_ex (\<lambda>t. t \<in> S \<or> SPACE \<in> set t \<or> SQUOTE \<in> set t) (spec_cleaned_targets (strip l))"
proof (cases "class_targets (strip l)")
  case None
  then have "spec_cleaned_targets (strip l) = [[]]"
    using assms by (simp add: class_targets_None_spec)
  moreover have "\<not> drops S l" using None by (simp add: drops_def)
  ultimately show ?thesis using assms(2) [OF None] by simp
next
  case (Some g)
  then show ?thesis using assms class_targets_spec [OF Some]
    by (simp add: drops_def has_subgraph_id_def)
qed

lemma kept_lines_iff: "l \<in> set (kept_lines d) \<longleftrightarrow>
    l \<in> set (py_split NEWLINE d) \<and> \<not> drops (ids_of_lines (py_split NEWLINE d)) l"
  by (simp add: kept_lines_def)

lemma subseq_kept: "subseq (kept_lines d) (py_split NEWLINE d)"
  by (simp add: kept_lines_def)

lemma collect_line_ids: "collect_line l {} = Inr D \<Longrightarrow> D = line_ids l"
  by (simp add: collect_line_eq)

lemma line_ids_sub: "l \<in> set ls \<Longrightarrow> line_ids l \<subseteq> ids_of_lines ls"
  by (auto simp: ids_of_lines_def)

lemma filter_not_class_kept:
  "filter (\<lambda>l. \<not> startswith (strip l) (py ''class '')) (kept_lines d)
   = filter (\<lambda>l. \<not> startswith (strip l) (py ''class '')) (py_split NEWLINE d)"
  unfolding kept_lines_def filter_filter
  by (rule filter_cong) (auto simp: drops_def)

lemma split_join_kept_if:
  "py_split NEWLINE (py_join [NEWLINE] (kept_lines d))
   = (if kept_lines d = [] then [[]] else kept_lines d)"
  by (simp add: split_join_kept)

lemma decl_lines_kept:
  "filter (\<lambda>l. collect_line l {} \<noteq> Inr {}) (kept_lines d)
   = filter (\<lambda>l. collect_line l {} \<noteq> Inr {}) (py_split NEWLINE d)"
  unfolding kept_lines_def filter_filter
proof (rule filter_cong)
  fix l
  assume "l \<in> set (py_split NEWLINE d)"
  show "(\<not> drops (ids_of_lines (py_split NEWLINE d)) l \<and> collect_line l {} \<noteq> Inr {})
        = (collect_line l {} \<noteq> Inr {})"
    using decl_not_dropped [of l "ids_of_lines (py_split NEWLINE d)"]
    by (auto simp: collect_line_eq)
qed simp

lemma ids_of_lines_rev: "ids_of_lines (rev ls) = ids_of_lines ls"
  by (simp add: ids_of_lines_def)

lemma declared_target_dropped:
  assumes "decl \<in> set ls" "startswith (strip cl) (py ''class '')"
    and "t \<in> line_ids decl" "t \<in> set (spec_cleaned_targets (strip cl))"
  shows "drops (ids_of_lines ls) cl"
proof -
  have "t \<in> ids_of_lines ls" using assms(1,3) line_ids_sub by blast
  then have "list_ex (\<lambda>t. t \<in> ids_of_lines ls \<or> SPACE \<in> set t \<or> SQUOTE \<in> set t)
               (spec_cleaned_targets (strip cl))"
    using assms(4) by (auto simp: list_ex_iff)
  moreover have "drops (ids_of_lines ls) cl \<longleftrightarrow>
      list_ex (\<lambda>t. t \<in> ids_of_lines ls \<or> SPACE \<in> set t \<or> SQUOTE \<in> set t)
        (spec_cleaned_targets (strip cl))"
    by (intro drops_spec [OF assms(2)]) (rule empty_not_in_ids)
  ultimately show ?thesis by simp
qed

lemma kept_lines_empty_all_class:
  "kept_lines d = [] \<Longrightarrow> list_all (\<lambda>l. startswith (strip l) (py ''class '')) (py_split NEWLINE d)"
proof -
  assume e: "kept_lines d = []"
  have "\<forall>l \<in> set (py_split NEWLINE d). drops (ids_of_lines (py_split NEWLINE d)) l"
    using e by (simp add: kept_lines_def filter_empty_conv)
  then show ?thesis by (auto simp: list_all_iff drops_def)
qed

lemma not_class_line_kept_lines:
  "list_ex (\<lambda>l. \<not> startswith (strip l) (py ''class '')) (py_split NEWLINE d) \<Longrightarrow> kept_lines d \<noteq> []"
  using kept_lines_empty_all_class [of d] by (auto simp: list_all_iff list_ex_iff)

section \<open>Lines given by their parts\<close>

lemma replace_char_delete: "replace_char c [] s = filter (\<lambda>x. x \<noteq> c) s"
  by (induction s) (auto simp: replace_char_def)

lemma sanitized_label_spec: "sanitized_label label = spec_normalized label"
  by (auto simp: sanitized_label_def spec_normalized_def replace_char_delete intro: filter_cong)

lemma take_drop_subgraph:
  "take 8 (py ''subgraph'' @ x) = py ''subgraph''" "drop 8 (py ''subgraph'' @ x) = x"
  using len_subgraph by simp_all

lemma take_drop_class:
  "take 5 (py ''class'' @ x) = py ''class''" "drop 5 (py ''class'' @ x) = x"
  using len_class by simp_all

lemma run_then_stop:
  assumes "\<forall>c \<in> set ws. p c" "ys = [] \<or> \<not> p (hd ys)"
  shows "takeWhile p (ws @ ys) = ws" "dropWhile p (ws @ ys) = ys"
proof -
  have t: "takeWhile p ys = []" using assms(2) by (cases ys) auto
  have d: "dropWhile p ys = ys" using assms(2) by (cases ys) auto
  show "takeWhile p (ws @ ys) = ws" using assms(1) t by (simp add: takeWhile_append2)
  show "dropWhile p (ws @ ys) = ys" using assms(1) d by (simp add: dropWhile_append2)
qed

lemma quoted_label_decomposed:
  assumes "s = py ''subgraph'' @ ws @ [DQUOTE] @ label @ [DQUOTE] @ rest"
    and "ws \<noteq> []" "\<forall>c \<in> set ws. isspace c" "label \<noteq> []" "DQUOTE \<notin> set label"
  shows "quoted_label s = Some label" "explicit_id s = None"
proof -
  have nsp: "\<not> isspace DQUOTE" by (simp add: isspace_def)
  have w: "takeWhile isspace (ws @ DQUOTE # label @ DQUOTE # rest) = ws"
       "dropWhile isspace (ws @ DQUOTE # label @ DQUOTE # rest) = DQUOTE # label @ DQUOTE # rest"
    using run_then_stop [of ws isspace "DQUOTE # label @ DQUOTE # rest"] assms(3) nsp by simp_all
  have "\<forall>c \<in> set label. not_dquote c" using assms(5) by (auto simp: not_dquote_def)
  moreover have "\<not> not_dquote DQUOTE" by (simp add: not_dquote_def)
  ultimately have l: "takeWhile not_dquote (label @ DQUOTE # rest) = label"
       "dropWhile not_dquote (label @ DQUOTE # rest) = DQUOTE # rest"
    using run_then_stop [of label not_dquote "DQUOTE # rest"] by simp_all
  show "quoted_label s = Some label"
    unfolding quoted_label_def assms(1) take_drop_subgraph
    using w l assms(2,4) by (simp del: dropWhile_eq_Nil_conv)
  have "\<not> ident_start DQUOTE" by (simp add: ident_start_def)
  then show "explicit_id s = None"
    unfolding explicit_id_def assms(1) take_drop_subgraph
    using w by simp
qed

lemma explicit_id_decomposed:
  assumes "s = py ''subgraph'' @ ws @ (c # cs) @ rest"
    and "ws \<noteq> []" "\<forall>x \<in> set ws. isspace x" "ident_start c" "\<forall>x \<in> set cs. ident_char x"
    and "rest = [] \<or> \<not> ident_char (hd rest)"
  shows "explicit_id s = Some (c # cs)" "quoted_label s = None"
proof -
  have nsp: "\<not> isspace c" using assms(4) isspace_not_ident by blast
  have w: "takeWhile isspace (ws @ c # cs @ rest) = ws"
       "dropWhile isspace (ws @ c # cs @ rest) = c # cs @ rest"
    using run_then_stop [of ws isspace "c # cs @ rest"] assms(3) nsp by simp_all
  have i: "takeWhile ident_char (cs @ rest) = cs"
    using run_then_stop(1) [of cs ident_char rest] assms(5,6) by simp
  show "explicit_id s = Some (c # cs)"
    unfolding explicit_id_def assms(1) take_drop_subgraph
    using w i assms(2,4) by simp
  have "c \<noteq> DQUOTE" using assms(4) by (auto simp: ident_start_def)
  then show "quoted_label s = None"
    unfolding quoted_label_def assms(1) take_drop_subgraph
    using w by simp
qed

lemma class_targets_decomposed:
  assumes "s = py ''class'' @ ws @ targets @ [terminator] @ rest"
    and "ws \<noteq> []" "\<forall>c \<in> set ws. isspace c" "targets \<noteq> []" "\<not> isspace (hd targets)"
    and "\<forall>c \<in> set targets. c \<noteq> SEMICOLON \<and> c \<noteq> COLON"
    and "terminator = SEMICOLON \<or> terminator = COLON"
  shows "class_targets s = Some targets" "spec_targets_clause s = targets"
proof -
  have ne: "targets @ terminator # rest \<noteq> []" by simp
  have hd: "hd (targets @ terminator # rest) = hd targets" using assms(4) by simp
  have w: "takeWhile isspace (ws @ targets @ terminator # rest) = ws"
       "dropWhile isspace (ws @ targets @ terminator # rest) = targets @ terminator # rest"
    using run_then_stop [of ws isspace "targets @ terminator # rest"] assms(3,5) hd by simp_all
  have "\<forall>c \<in> set targets. not_terminator c" using assms(6) by (simp add: not_terminator_def)
  moreover have "\<not> not_terminator terminator" using assms(7) by (auto simp: not_terminator_def)
  ultimately have t: "takeWhile not_terminator (targets @ terminator # rest) = targets"
    using run_then_stop(1) [of targets not_terminator "terminator # rest"] by simp
  show "class_targets s = Some targets"
    unfolding class_targets_def assms(1) take_drop_class
    using w t assms(2,4) by (simp add: Let_def)
  show "spec_targets_clause s = targets"
    unfolding spec_targets_clause_def assms(1) take_drop_class
    using w t by simp
qed

section \<open>Evaluation on concrete texts\<close>

text \<open>The definitions a concrete diagram is evaluated with.\<close>

lemmas eval_defs = py_def drops_def ids_of_lines_def line_ids_def explicit_id_def quoted_label_def
  class_targets_def strip_def strip_with_def startswith_def isspace_def targets_of_def
  has_subgraph_id_def strip_chars_def not_terminator_def not_dquote_def ident_start_def ident_char_def
  sanitized_label_def replace_char_def kept_lines_def Let_def

lemma scenario_E_targets:
  "map (\<lambda>id. strip_chars [DQUOTE, SQUOTE] (strip id)) (py_split COMMA (py ''X,Y'')) = [py ''X'', py ''Y'']"
  by (simp add: eval_defs)

section \<open>The claims\<close>

text \<open>
  C2. Scenario A is the text of the five lines \<^verbatim>\<open>subgraph API\<close>, \<^verbatim>\<open>A-->B\<close>, \<^verbatim>\<open>end\<close>,
  \<^verbatim>\<open>class API,A fill:#f9f\<close> and \<^verbatim>\<open>class A fill:#bbf\<close>. The claim is that the fourth line
  is removed and the fifth kept. On this text the function returns the first three lines
  only: the fifth line is removed too. Its captured group runs up to the colon, so it is
  \<^verbatim>\<open>A fill\<close>, the only identifier \<^verbatim>\<open>A fill\<close> contains a space, and the line is skipped.
\<close>

theorem scenario_A_drops_both_class_lines:
  "clean_invalid_class_statements
     (py ''subgraph API\<newline>A-->B\<newline>end\<newline>class API,A fill:#f9f\<newline>class A fill:#bbf'')
   = Inr (py ''subgraph API\<newline>A-->B\<newline>end'')
   \<and> re_match class_rx (strip (py ''class A fill:#bbf'')) = Some [py ''A fill'']
   \<and> skips_line {py ''API''} (py ''class A fill:#bbf'') = Inr True"
  unfolding clean_eq re_match_class skips_line_eq by (simp add: eval_defs)

text \<open>
  C8. \<open>clean_invalid_class_statements\<close> is total over strings and never raises: for
  every text it returns a string. The one step of the source that can raise on a value is
  \<^verbatim>\<open>group(1)\<close> on a match object; every match of the three patterns has its group.
\<close>

theorem clean_never_raises:
  "\<exists>out. clean_invalid_class_statements diagram = Inr out"
  by (simp add: clean_eq)

theorem clean_never_raises_witness:
  "\<exists>out. clean_invalid_class_statements (py ''class \"a b;'') = Inr out"
  by (rule clean_never_raises)

text \<open>
  C7. Identity on clean input: a text none of whose lines, once trimmed, starts with
  \<^verbatim>\<open>class \<close> is returned unchanged; in particular the empty string is.
\<close>

theorem identity_without_class_lines:
  assumes "\<forall>l \<in> set (py_split NEWLINE diagram). \<not> startswith (strip l) (py ''class '')"
  shows "clean_invalid_class_statements diagram = Inr diagram
         \<and> clean_invalid_class_statements [] = Inr []"
proof -
  have "kept_lines diagram = py_split NEWLINE diagram"
    using assms by (simp add: kept_lines_def not_class_kept)
  then have "clean_invalid_class_statements diagram = Inr diagram"
    by (simp add: passes_eq py_join_split)
  moreover have "clean_invalid_class_statements [] = Inr []"
    by (simp add: passes_eq kept_lines_def empty_line_kept)
  ultimately show ?thesis by simp
qed

theorem identity_without_class_lines_witness:
  "list_all (\<lambda>l. \<not> startswith (strip l) (py ''class ''))
     (py_split NEWLINE (py ''subgraph API\<newline>  A-->B\<newline>end''))
   \<and> clean_invalid_class_statements (py ''subgraph API\<newline>  A-->B\<newline>end'')
       = Inr (py ''subgraph API\<newline>  A-->B\<newline>end'')
   \<and> clean_invalid_class_statements (py '''') = Inr (py '''')"
proof -
  have h: "\<forall>l \<in> set (py_split NEWLINE (py ''subgraph API\<newline>  A-->B\<newline>end'')).
             \<not> startswith (strip l) (py ''class '')"
    by (simp add: eval_defs)
  show ?thesis
    using h identity_without_class_lines [OF h] by (simp add: py_def list_all_iff)
qed

text \<open>
  C4. Idempotence: applying \<open>clean_invalid_class_statements\<close> to its own output gives
  that output again.
\<close>

theorem clean_idempotent:
  "\<exists>out. clean_invalid_class_statements diagram = Inr out
         \<and> clean_invalid_class_statements out = Inr out"
  by (simp add: passes_eq clean_idem_aux)

theorem clean_idempotent_witness:
  "\<exists>out. clean_invalid_class_statements (py ''subgraph S\<newline>class S x\<newline>class A'') = Inr out
         \<and> clean_invalid_class_statements out = Inr out"
  by (rule clean_idempotent)

text \<open>
  C1. Take a line of the input whose trimmed form starts with \<^verbatim>\<open>class \<close> and for which
  the pattern of the class statement matches. The line is among the kept lines if and only
  if none of its cleaned target identifiers, computed as the specification describes them
  (\<open>spec_cleaned_targets\<close>), is in the set of subgraph identifiers, contains a space
  or contains a single quote. The kept lines are lines of the input, unchanged and in their
  order, so a kept line is emitted as it was, untrimmed.
\<close>

theorem class_line_kept_iff:
  assumes "l \<in> set (py_split NEWLINE diagram)"
    and "startswith (strip l) (py ''class '')"
    and "re_match class_rx (strip l) \<noteq> None"
  shows "\<exists>subgraph_ids cleaned_lines.
           first_pass (py_split NEWLINE diagram) {} = Inr subgraph_ids
         \<and> second_pass subgraph_ids (py_split NEWLINE diagram) [] = Inr cleaned_lines
         \<and> clean_invalid_class_statements diagram = Inr (py_join [NEWLINE] cleaned_lines)
         \<and> subseq cleaned_lines (py_split NEWLINE diagram)
         \<and> (l \<in> set cleaned_lines \<longleftrightarrow>
              \<not> list_ex (\<lambda>t. t \<in> subgraph_ids \<or> SPACE \<in> set t \<or> SQUOTE \<in> set t)
                   (spec_cleaned_targets (strip l)))"
proof -
  have "class_targets (strip l) \<noteq> None" using assms(3) by (simp add: re_match_class)
  then have "drops (ids_of_lines (py_split NEWLINE diagram)) l \<longleftrightarrow>
      list_ex (\<lambda>t. t \<in> ids_of_lines (py_split NEWLINE diagram) \<or> SPACE \<in> set t \<or> SQUOTE \<in> set t)
        (spec_cleaned_targets (strip l))"
    by (intro drops_spec [OF assms(2)]) simp
  then have "l \<in> set (kept_lines diagram) \<longleftrightarrow>
      \<not> list_ex (\<lambda>t. t \<in> ids_of_lines (py_split NEWLINE diagram) \<or> SPACE \<in> set t \<or> SQUOTE \<in> set t)
        (spec_cleaned_targets (strip l))"
    using assms(1) by (simp add: kept_lines_iff)
  then show ?thesis using passes_eq [of diagram] subseq_kept [of diagram] by blast
qed

theorem class_line_kept_iff_witness:
  "py ''  class A, \"B\"'' \<in> set (py_split NEWLINE (py ''subgraph S\<newline>  class A, \"B\"\<newline>class S,A''))
   \<and> startswith (strip (py ''  class A, \"B\"'')) (py ''class '')
   \<and> re_match class_rx (strip (py ''  class A, \"B\"'')) = Some [py ''A, \"B\"'']
   \<and> spec_cleaned_targets (strip (py ''  class A, \"B\"'')) = [py ''A'', py ''B'']
   \<and> clean_invalid_class_statements (py ''subgraph S\<newline>  class A, \"B\"\<newline>class S,A'')
       = Inr (py ''subgraph S\<newline>  class A, \"B\"'')
   \<and> (\<exists>subgraph_ids cleaned_lines.
         first_pass (py_split NEWLINE (py ''subgraph S\<newline>  class A, \"B\"\<newline>class S,A'')) {} = Inr subgraph_ids
       \<and> second_pass subgraph_ids (py_split NEWLINE (py ''subgraph S\<newline>  class A, \"B\"\<newline>class S,A'')) []
           = Inr cleaned_lines
       \<and> py ''  class A, \"B\"'' \<in> set cleaned_lines)"
proof -
  let ?d = "py ''subgraph S\<newline>  class A, \"B\"\<newline>class S,A''"
  let ?l = "py ''  class A, \"B\"''"
  have h1: "?l \<in> set (py_split NEWLINE ?d)" by (simp add: py_def)
  have h2: "startswith (strip ?l) (py ''class '')" by (simp add: eval_defs)
  have m: "re_match class_rx (strip ?l) = Some [py ''A, \"B\"'']"
    unfolding re_match_class by (simp add: eval_defs)
  then have h3: "re_match class_rx (strip ?l) \<noteq> None" by simp
  have t: "spec_cleaned_targets (strip ?l) = [py ''A'', py ''B'']"
    by (simp add: spec_cleaned_targets_def spec_targets_clause_def eval_defs)
  have ids: "first_pass (py_split NEWLINE ?d) {} = Inr {py ''S''}"
    unfolding first_pass_eq by (simp add: eval_defs)
  have c: "clean_invalid_class_statements ?d = Inr (py ''subgraph S\<newline>  class A, \"B\"'')"
    unfolding clean_eq by (simp add: eval_defs)
  from class_line_kept_iff [OF h1 h2 h3] obtain subgraph_ids cleaned_lines where
    a: "first_pass (py_split NEWLINE ?d) {} = Inr subgraph_ids"
    and b: "second_pass subgraph_ids (py_split NEWLINE ?d) [] = Inr cleaned_lines"
    and k: "?l \<in> set cleaned_lines \<longleftrightarrow>
              \<not> list_ex (\<lambda>t. t \<in> subgraph_ids \<or> SPACE \<in> set t \<or> SQUOTE \<in> set t)
                   (spec_cleaned_targets (strip ?l))"
    by blast
  from a ids have s: "subgraph_ids = {py ''S''}" by simp
  have "?l \<in> set cleaned_lines" unfolding k t s by (simp add: py_def)
  then show ?thesis using h1 h2 m t c a b by blast
qed

text \<open>
  C9. Only whole lines whose trimmed form starts with \<^verbatim>\<open>class \<close> are ever deleted. The
  kept lines are a subsequence of the lines of the input; the lines whose trimmed form does
  not start with \<^verbatim>\<open>class \<close> are all kept, unchanged and in their order, and so are the
  lines that declare a subgraph. The output is the kept lines joined by newlines. When at
  least one line is kept, and so whenever some line of the input is not a class statement,
  the lines of the output are the kept lines: a subsequence of the lines of the input.
  When every line is deleted, which needs every line of the input to be a class statement,
  the output is the empty string, whose only line is the empty one.
\<close>

theorem only_class_lines_deleted:
  "\<exists>subgraph_ids cleaned_lines out.
       first_pass (py_split NEWLINE diagram) {} = Inr subgraph_ids
     \<and> second_pass subgraph_ids (py_split NEWLINE diagram) [] = Inr cleaned_lines
     \<and> out = py_join [NEWLINE] cleaned_lines
     \<and> clean_invalid_class_statements diagram = Inr out
     \<and> subseq cleaned_lines (py_split NEWLINE diagram)
     \<and> filter (\<lambda>l. \<not> startswith (strip l) (py ''class '')) cleaned_lines
         = filter (\<lambda>l. \<not> startswith (strip l) (py ''class '')) (py_split NEWLINE diagram)
     \<and> filter (\<lambda>l. collect_line l {} \<noteq> Inr {}) cleaned_lines
         = filter (\<lambda>l. collect_line l {} \<noteq> Inr {}) (py_split NEWLINE diagram)
     \<and> (cleaned_lines \<noteq> [] \<longrightarrow>
            py_split NEWLINE out = cleaned_lines
          \<and> subseq (py_split NEWLINE out) (py_split NEWLINE diagram)
          \<and> filter (\<lambda>l. \<not> startswith (strip l) (py ''class '')) (py_split NEWLINE out)
              = filter (\<lambda>l. \<not> startswith (strip l) (py ''class '')) (py_split NEWLINE diagram))
     \<and> (cleaned_lines = [] \<longrightarrow>
            out = [] \<and> py_split NEWLINE out = [[]]
          \<and> list_all (\<lambda>l. startswith (strip l) (py ''class '')) (py_split NEWLINE diagram))
     \<and> (list_ex (\<lambda>l. \<not> startswith (strip l) (py ''class '')) (py_split NEWLINE diagram)
            \<longrightarrow> cleaned_lines \<noteq> [])"
proof -
  let ?k = "kept_lines diagram"
  let ?out = "py_join [NEWLINE] ?k"
  have a: "?k \<noteq> [] \<longrightarrow>
            py_split NEWLINE ?out = ?k
          \<and> subseq (py_split NEWLINE ?out) (py_split NEWLINE diagram)
          \<and> filter (\<lambda>l. \<not> startswith (strip l) (py ''class '')) (py_split NEWLINE ?out)
              = filter (\<lambda>l. \<not> startswith (strip l) (py ''class '')) (py_split NEWLINE diagram)"
    using split_join_kept [of diagram] subseq_kept [of diagram] filter_not_class_kept [of diagram]
    by simp
  have b: "?k = [] \<longrightarrow> ?out = [] \<and> py_split NEWLINE ?out = [[]]
          \<and> list_all (\<lambda>l. startswith (strip l) (py ''class '')) (py_split NEWLINE diagram)"
    using kept_lines_empty_all_class [of diagram] by simp
  have c: "list_ex (\<lambda>l. \<not> startswith (strip l) (py ''class '')) (py_split NEWLINE diagram)
            \<longrightarrow> ?k \<noteq> []"
    using not_class_line_kept_lines [of diagram] by blast
  show ?thesis
    using passes_eq [of diagram] subseq_kept [of diagram] filter_not_class_kept [of diagram]
      decl_lines_kept [of diagram] a b c
    by blast
qed

theorem only_class_lines_deleted_witness:
  "clean_invalid_class_statements (py ''subgraph S\<newline> A-->B\<newline>end\<newline>class S x'')
     = Inr (py ''subgraph S\<newline> A-->B\<newline>end'')
   \<and> py_split NEWLINE (py ''subgraph S\<newline> A-->B\<newline>end'')
       = [py ''subgraph S'', py '' A-->B'', py ''end'']
   \<and> subseq (py_split NEWLINE (py ''subgraph S\<newline> A-->B\<newline>end''))
        (py_split NEWLINE (py ''subgraph S\<newline> A-->B\<newline>end\<newline>class S x''))
   \<and> list_ex (\<lambda>l. \<not> startswith (strip l) (py ''class ''))
        (py_split NEWLINE (py ''subgraph S\<newline> A-->B\<newline>end\<newline>class S x''))"
proof -
  let ?d = "py ''subgraph S\<newline> A-->B\<newline>end\<newline>class S x''"
  let ?o = "py ''subgraph S\<newline> A-->B\<newline>end''"
  have h: "list_ex (\<lambda>l. \<not> startswith (strip l) (py ''class '')) (py_split NEWLINE ?d)"
    by (simp add: eval_defs)
  have c: "clean_invalid_class_statements ?d = Inr ?o"
    unfolding clean_eq by (simp add: eval_defs)
  have sp: "py_split NEWLINE ?o = [py ''subgraph S'', py '' A-->B'', py ''end'']"
    by (simp add: py_def)
  from only_class_lines_deleted [of ?d] obtain cleaned_lines out where
    o: "clean_invalid_class_statements ?d = Inr out"
    and n: "list_ex (\<lambda>l. \<not> startswith (strip l) (py ''class '')) (py_split NEWLINE ?d)
              \<longrightarrow> cleaned_lines \<noteq> []"
    and s: "cleaned_lines \<noteq> [] \<longrightarrow> subseq (py_split NEWLINE out) (py_split NEWLINE ?d)"
    by blast
  from o c have "out = ?o" by simp
  then have "subseq (py_split NEWLINE ?o) (py_split NEWLINE ?d)" using h n s by blast
  then show ?thesis using h c sp by blast
qed

text \<open>
  C9 as it was stated has the lines of the output a subsequence of the lines of the input
  for every input. The text \<^verbatim>\<open>class a b\<close> is one line, and it is deleted; the output is
  the empty string, whose line sequence is the one empty line, and that is not a
  subsequence of the one line of the input.
\<close>

theorem output_lines_not_subsequence_counterexample:
  "clean_invalid_class_statements (py ''class a b'') = Inr (py '''')
   \<and> py_split NEWLINE (py '''') = [py '''']
   \<and> py_split NEWLINE (py ''class a b'') = [py ''class a b'']
   \<and> \<not> subseq (py_split NEWLINE (py '''')) (py_split NEWLINE (py ''class a b''))"
proof -
  have "clean_invalid_class_statements (py ''class a b'') = Inr (py '''')"
    unfolding clean_eq by (simp add: eval_defs)
  moreover have "py_split NEWLINE (py '''') = [py '''']" by (simp add: py_def)
  moreover have "py_split NEWLINE (py ''class a b'') = [py ''class a b'']" by (simp add: py_def)
  moreover have "\<not> subseq [py ''''] [py ''class a b'']" by (simp add: py_def)
  ultimately show ?thesis by simp
qed

text \<open>
  C3. Position independence. The set of subgraph identifiers is the result of the first
  loop over all the lines, it does not depend on their order, and the second loop runs with
  that one set. So a class statement one of whose cleaned targets is an identifier declared
  by some line of the text is not among the kept lines, whether the declaring line stands
  before or after it.
\<close>

theorem class_on_declared_subgraph_dropped:
  assumes "cl \<in> set (py_split NEWLINE diagram)"
    and "decl \<in> set (py_split NEWLINE diagram)"
    and "startswith (strip cl) (py ''class '')"
    and "collect_line decl {} = Inr declared"
    and "t \<in> declared"
    and "t \<in> set (spec_cleaned_targets (strip cl))"
  shows "\<exists>subgraph_ids cleaned_lines.
           first_pass (py_split NEWLINE diagram) {} = Inr subgraph_ids
         \<and> first_pass (rev (py_split NEWLINE diagram)) {} = Inr subgraph_ids
         \<and> second_pass subgraph_ids (py_split NEWLINE diagram) [] = Inr cleaned_lines
         \<and> clean_invalid_class_statements diagram = Inr (py_join [NEWLINE] cleaned_lines)
         \<and> t \<in> subgraph_ids
         \<and> cl \<notin> set cleaned_lines"
proof -
  let ?ls = "py_split NEWLINE diagram"
  have d: "t \<in> line_ids decl" using assms(4,5) collect_line_ids by blast
  then have "t \<in> ids_of_lines ?ls" using assms(2) line_ids_sub by blast
  moreover have "drops (ids_of_lines ?ls) cl"
    using declared_target_dropped [OF assms(2,3) d assms(6)] .
  then have "cl \<notin> set (kept_lines diagram)" by (simp add: kept_lines_iff)
  moreover have "first_pass (rev ?ls) {} = Inr (ids_of_lines ?ls)"
    by (simp add: first_pass_eq ids_of_lines_rev)
  ultimately show ?thesis using passes_eq [of diagram] by blast
qed

theorem class_on_declared_subgraph_dropped_witness:
  "py ''class S,A'' \<in> set (py_split NEWLINE (py ''class S,A\<newline>subgraph S\<newline>end''))
   \<and> py ''subgraph S'' \<in> set (py_split NEWLINE (py ''class S,A\<newline>subgraph S\<newline>end''))
   \<and> startswith (strip (py ''class S,A'')) (py ''class '')
   \<and> collect_line (py ''subgraph S'') {} = Inr {py ''S''}
   \<and> py ''S'' \<in> set (spec_cleaned_targets (strip (py ''class S,A'')))
   \<and> clean_invalid_class_statements (py ''class S,A\<newline>subgraph S\<newline>end'')
       = Inr (py ''subgraph S\<newline>end'')
   \<and> (\<exists>subgraph_ids cleaned_lines.
         first_pass (py_split NEWLINE (py ''class S,A\<newline>subgraph S\<newline>end'')) {} = Inr subgraph_ids
       \<and> second_pass subgraph_ids (py_split NEWLINE (py ''class S,A\<newline>subgraph S\<newline>end'')) []
           = Inr cleaned_lines
       \<and> py ''class S,A'' \<notin> set cleaned_lines)"
proof -
  let ?d = "py ''class S,A\<newline>subgraph S\<newline>end''"
  have h1: "py ''class S,A'' \<in> set (py_split NEWLINE ?d)" by (simp add: py_def)
  have h2: "py ''subgraph S'' \<in> set (py_split NEWLINE ?d)" by (simp add: py_def)
  have h3: "startswith (strip (py ''class S,A'')) (py ''class '')" by (simp add: eval_defs)
  have h4: "collect_line (py ''subgraph S'') {} = Inr {py ''S''}"
    unfolding collect_line_eq by (simp add: eval_defs)
  have h5: "py ''S'' \<in> {py ''S''}" by simp
  have h6: "py ''S'' \<in> set (spec_cleaned_targets (strip (py ''class S,A'')))"
    by (simp add: spec_cleaned_targets_def spec_targets_clause_def eval_defs)
  have c: "clean_invalid_class_statements ?d = Inr (py ''subgraph S\<newline>end'')"
    unfolding clean_eq by (simp add: eval_defs)
  from class_on_declared_subgraph_dropped [OF h1 h2 h3 h4 h5 h6]
  show ?thesis using h1 h2 h3 h4 h6 c by blast
qed

text \<open>
  C5. Take a line whose trimmed form is \<^verbatim>\<open>subgraph\<close>, whitespace, and a non-empty label in
  double quotes, followed by anything. The first loop adds to the set the label as it is
  written and, when it is not empty, the label with every space and every single quote
  deleted, and nothing else; both are in the set the first loop returns for the whole text.
  The line \<^verbatim>\<open>subgraph "My Service"\<close> registers \<^verbatim>\<open>My Service\<close> and \<^verbatim>\<open>MyService\<close>, and in
  Scenario B the line \<^verbatim>\<open>class MyService fill:#ccc\<close> is not in the output.
\<close>

theorem quoted_label_registered:
  assumes "l \<in> set (py_split NEWLINE diagram)"
    and "strip l = py ''subgraph'' @ ws @ [DQUOTE] @ label @ [DQUOTE] @ rest"
    and "ws \<noteq> []" and "\<forall>c \<in> set ws. isspace c"
    and "label \<noteq> []" and "DQUOTE \<notin> set label"
  shows "collect_line l ids =
           Inr (if spec_normalized label \<noteq> []
                then insert (spec_normalized label) (insert label ids) else insert label ids)
       \<and> (\<exists>subgraph_ids. first_pass (py_split NEWLINE diagram) {} = Inr subgraph_ids
            \<and> label \<in> subgraph_ids
            \<and> (spec_normalized label \<noteq> [] \<longrightarrow> spec_normalized label \<in> subgraph_ids))
       \<and> collect_line (py ''subgraph \"My Service\"'') {} = Inr {py ''My Service'', py ''MyService''}
       \<and> clean_invalid_class_statements (py ''subgraph \"My Service\"\<newline>class MyService fill:#ccc'')
           = Inr (py ''subgraph \"My Service\"'')"
proof -
  have q: "quoted_label (strip l) = Some label" and e: "explicit_id (strip l) = None"
    using quoted_label_decomposed [OF assms(2,3,4,5,6)] by simp_all
  have li: "line_ids l = {label} \<union> (if spec_normalized label \<noteq> [] then {spec_normalized label} else {})"
    by (simp add: line_ids_def q e sanitized_label_spec)
  have 1: "collect_line l ids =
           Inr (if spec_normalized label \<noteq> []
                then insert (spec_normalized label) (insert label ids) else insert label ids)"
    unfolding collect_line_eq li by auto
  have "line_ids l \<subseteq> ids_of_lines (py_split NEWLINE diagram)"
    using assms(1) by (rule line_ids_sub)
  then have 2: "label \<in> ids_of_lines (py_split NEWLINE diagram)
       \<and> (spec_normalized label \<noteq> [] \<longrightarrow> spec_normalized label \<in> ids_of_lines (py_split NEWLINE diagram))"
    unfolding li by auto
  have 3: "collect_line (py ''subgraph \"My Service\"'') {} = Inr {py ''My Service'', py ''MyService''}"
    unfolding collect_line_eq by (simp add: eval_defs insert_commute)
  have 4: "clean_invalid_class_statements (py ''subgraph \"My Service\"\<newline>class MyService fill:#ccc'')
           = Inr (py ''subgraph \"My Service\"'')"
    unfolding clean_eq by (simp add: eval_defs)
  show ?thesis using 1 2 3 4 passes_eq(1) [of diagram] by blast
qed

theorem quoted_label_registered_witness:
  "py '' subgraph  \"It's a label\" x'' \<in> set (py_split NEWLINE (py ''A-->B\<newline> subgraph  \"It's a label\" x''))
   \<and> strip (py '' subgraph  \"It's a label\" x'')
       = py ''subgraph'' @ py ''  '' @ [DQUOTE] @ py ''It's a label'' @ [DQUOTE] @ py '' x''
   \<and> list_all isspace (py ''  '')
   \<and> DQUOTE \<notin> set (py ''It's a label'')
   \<and> spec_normalized (py ''It's a label'') = py ''Itsalabel''
   \<and> first_pass (py_split NEWLINE (py ''A-->B\<newline> subgraph  \"It's a label\" x'')) {}
       = Inr {py ''It's a label'', py ''Itsalabel''}
   \<and> clean_invalid_class_statements (py ''subgraph \"My Service\"\<newline>class MyService'')
       = Inr (py ''subgraph \"My Service\"'')
   \<and> clean_invalid_class_statements (py ''class MyService'') = Inr (py ''class MyService'')"
proof -
  let ?d = "py ''A-->B\<newline> subgraph  \"It's a label\" x''"
  let ?l = "py '' subgraph  \"It's a label\" x''"
  have h1: "?l \<in> set (py_split NEWLINE ?d)" by (simp add: py_def)
  have h2: "strip ?l = py ''subgraph'' @ py ''  '' @ [DQUOTE] @ py ''It's a label'' @ [DQUOTE] @ py '' x''"
    by (simp add: eval_defs)
  have h3: "py ''  '' \<noteq> []" by (simp add: py_def)
  have h4: "\<forall>c \<in> set (py ''  ''). isspace c" by (simp add: py_def isspace_def)
  have h5: "py ''It's a label'' \<noteq> []" by (simp add: py_def)
  have h6: "DQUOTE \<notin> set (py ''It's a label'')" by (simp add: py_def)
  have n: "spec_normalized (py ''It's a label'') = py ''Itsalabel''"
    by (simp add: spec_normalized_def py_def)
  have f: "first_pass (py_split NEWLINE ?d) {} = Inr {py ''It's a label'', py ''Itsalabel''}"
    unfolding first_pass_eq by (simp add: eval_defs insert_commute)
  from quoted_label_registered [OF h1 h2 h3 h4 h5 h6, of "{}"]
  have "\<exists>subgraph_ids. first_pass (py_split NEWLINE ?d) {} = Inr subgraph_ids
          \<and> py ''It's a label'' \<in> subgraph_ids" by blast
  moreover have "clean_invalid_class_statements (py ''subgraph \"My Service\"\<newline>class MyService'')
       = Inr (py ''subgraph \"My Service\"'')"
    unfolding clean_eq by (simp add: eval_defs)
  moreover have "clean_invalid_class_statements (py ''class MyService'') = Inr (py ''class MyService'')"
    unfolding clean_eq by (simp add: eval_defs)
  ultimately show ?thesis using h1 h2 h4 h6 n f by (simp add: list_all_iff)
qed

text \<open>
  C10. The scan for a bareword declaration is a prefix match. Take a line whose trimmed form
  is \<^verbatim>\<open>subgraph\<close>, whitespace, and an identifier of the shape \<^verbatim>\<open>[A-Za-z_][A-Za-z0-9_]*\<close>
  followed by any text that does not continue the identifier. The first loop adds that
  identifier to the set and nothing else, whatever the trailing text is, and the identifier
  is in the set the first loop returns for the whole text. The line
  \<^verbatim>\<open>subgraph API[My Label]\<close> registers \<^verbatim>\<open>API\<close> only.
\<close>

theorem bareword_prefix_registered:
  assumes "l \<in> set (py_split NEWLINE diagram)"
    and "strip l = py ''subgraph'' @ ws @ (c # cs) @ rest"
    and "ws \<noteq> []" and "\<forall>x \<in> set ws. isspace x"
    and "ident_start c" and "\<forall>x \<in> set cs. ident_char x"
    and "rest = [] \<or> \<not> ident_char (hd rest)"
  shows "collect_line l ids = Inr (insert (c # cs) ids)
       \<and> (\<exists>subgraph_ids. first_pass (py_split NEWLINE diagram) {} = Inr subgraph_ids
            \<and> c # cs \<in> subgraph_ids)
       \<and> collect_line (py ''subgraph API[My Label]'') {} = Inr {py ''API''}"
proof -
  have e: "explicit_id (strip l) = Some (c # cs)" and q: "quoted_label (strip l) = None"
    using explicit_id_decomposed [OF assms(2,3,4,5,6,7)] by simp_all
  have li: "line_ids l = {c # cs}" by (simp add: line_ids_def q e)
  have 1: "collect_line l ids = Inr (insert (c # cs) ids)"
    unfolding collect_line_eq li by simp
  have "line_ids l \<subseteq> ids_of_lines (py_split NEWLINE diagram)"
    using assms(1) by (rule line_ids_sub)
  then have 2: "c # cs \<in> ids_of_lines (py_split NEWLINE diagram)"
    unfolding li by simp
  have 3: "collect_line (py ''subgraph API[My Label]'') {} = Inr {py ''API''}"
    unfolding collect_line_eq by (simp add: eval_defs)
  show ?thesis using 1 2 3 passes_eq(1) [of diagram] by blast
qed

theorem bareword_prefix_registered_witness:
  "py ''  subgraph API[My Label]'' \<in> set (py_split NEWLINE (py ''  subgraph API[My Label]\<newline>end''))
   \<and> strip (py ''  subgraph API[My Label]'') = py ''subgraph'' @ py '' '' @ py ''API'' @ py ''[My Label]''
   \<and> list_all isspace (py '' '')
   \<and> ident_start (hd (py ''API'')) \<and> list_all ident_char (tl (py ''API''))
   \<and> \<not> ident_char (hd (py ''[My Label]''))
   \<and> collect_line (py ''  subgraph API[My Label]'') {py ''B''} = Inr {py ''API'', py ''B''}
   \<and> first_pass (py_split NEWLINE (py ''  subgraph API[My Label]\<newline>end'')) {} = Inr {py ''API''}"
proof -
  let ?d = "py ''  subgraph API[My Label]\<newline>end''"
  let ?l = "py ''  subgraph API[My Label]''"
  have h1: "?l \<in> set (py_split NEWLINE ?d)" by (simp add: py_def)
  have h2: "strip ?l = py ''subgraph'' @ py '' '' @ (65 # py ''PI'') @ py ''[My Label]''"
    by (simp add: eval_defs)
  have h3: "py '' '' \<noteq> []" by (simp add: py_def)
  have h4: "\<forall>x \<in> set (py '' ''). isspace x" by (simp add: py_def isspace_def)
  have h5: "ident_start 65" by (simp add: ident_start_def)
  have h6: "\<forall>x \<in> set (py ''PI''). ident_char x" by (simp add: py_def ident_char_def)
  have h7: "py ''[My Label]'' = [] \<or> \<not> ident_char (hd (py ''[My Label]''))"
    by (simp add: py_def ident_char_def)
  have f: "first_pass (py_split NEWLINE ?d) {} = Inr {py ''API''}"
    unfolding first_pass_eq by (simp add: eval_defs)
  from bareword_prefix_registered [OF h1 h2 h3 h4 h5 h6 h7, of "{py ''B''}"]
  have "collect_line ?l {py ''B''} = Inr (insert (65 # py ''PI'') {py ''B''})" by blast
  then have "collect_line ?l {py ''B''} = Inr {py ''API'', py ''B''}" by (simp add: py_def)
  then show ?thesis using h1 h2 h4 h5 h6 h7 f by (simp add: list_all_iff py_def)
qed

text \<open>
  C6. Take a class statement whose trimmed form is \<^verbatim>\<open>class\<close>, whitespace, a targets clause
  free of \<^verbatim>\<open>;\<close> and \<^verbatim>\<open>:\<close>, then one of these two terminators and any text. The group the
  pattern captures is the targets clause, up to but not including the first terminator, and
  the line is kept if and only if none of the identifiers cleaned from that clause is a
  subgraph identifier or contains a space or a single quote. For
  \<^verbatim>\<open>class X,Y; style X fill:#000\<close> the cleaned targets are \<^verbatim>\<open>X\<close> and \<^verbatim>\<open>Y\<close>, and a line with
  this trimmed form is kept whenever neither is a subgraph identifier of the text.
\<close>

theorem targets_clause_ends_at_terminator:
  assumes "l \<in> set (py_split NEWLINE diagram)"
    and "startswith (strip l) (py ''class '')"
    and "strip l = py ''class'' @ ws @ targets @ [terminator] @ rest"
    and "ws \<noteq> []" and "\<forall>c \<in> set ws. isspace c"
    and "targets \<noteq> []" and "\<not> isspace (hd targets)"
    and "\<forall>c \<in> set targets. c \<noteq> SEMICOLON \<and> c \<noteq> COLON"
    and "terminator = SEMICOLON \<or> terminator = COLON"
  shows "re_match class_rx (strip l) = Some [targets]
       \<and> (\<exists>subgraph_ids cleaned_lines.
             first_pass (py_split NEWLINE diagram) {} = Inr subgraph_ids
           \<and> second_pass subgraph_ids (py_split NEWLINE diagram) [] = Inr cleaned_lines
           \<and> clean_invalid_class_statements diagram = Inr (py_join [NEWLINE] cleaned_lines)
           \<and> (l \<in> set cleaned_lines \<longleftrightarrow>
                \<not> has_subgraph_id subgraph_ids
                     (map (\<lambda>id. strip_chars [DQUOTE, SQUOTE] (strip id)) (py_split COMMA targets)))
           \<and> (strip l = py ''class X,Y; style X fill:#000''
                \<and> py ''X'' \<notin> subgraph_ids \<and> py ''Y'' \<notin> subgraph_ids
                \<longrightarrow> l \<in> set cleaned_lines))
       \<and> re_match class_rx (py ''class X,Y; style X fill:#000'') = Some [py ''X,Y'']
       \<and> map (\<lambda>id. strip_chars [DQUOTE, SQUOTE] (strip id)) (py_split COMMA (py ''X,Y''))
           = [py ''X'', py ''Y'']"
proof -
  let ?ids = "ids_of_lines (py_split NEWLINE diagram)"
  have ct: "class_targets (strip l) = Some targets"
    using class_targets_decomposed(1) [OF assms(3,4,5,6,7,8,9)] .
  then have 1: "re_match class_rx (strip l) = Some [targets]" by (simp add: re_match_class)
  have d: "drops ?ids l \<longleftrightarrow> has_subgraph_id ?ids
             (map (\<lambda>id. strip_chars [DQUOTE, SQUOTE] (strip id)) (py_split COMMA targets))"
    using assms(2) ct by (simp add: drops_def targets_of_unstripped)
  then have 2: "l \<in> set (kept_lines diagram) \<longleftrightarrow> \<not> has_subgraph_id ?ids
             (map (\<lambda>id. strip_chars [DQUOTE, SQUOTE] (strip id)) (py_split COMMA targets))"
    using assms(1) by (simp add: kept_lines_iff)
  have 3: "l \<in> set (kept_lines diagram)"
    if e: "strip l = py ''class X,Y; style X fill:#000''"
      and x: "py ''X'' \<notin> ?ids" and y: "py ''Y'' \<notin> ?ids"
  proof -
    have "class_targets (strip l) = Some (py ''X,Y'')"
      unfolding e by (simp add: eval_defs)
    moreover have "targets_of (py ''X,Y'') = [py ''X'', py ''Y'']"
      by (simp only: targets_of_unstripped scenario_E_targets)
    moreover have "SPACE \<notin> set (py ''X'') \<and> SQUOTE \<notin> set (py ''X'')
        \<and> SPACE \<notin> set (py ''Y'') \<and> SQUOTE \<notin> set (py ''Y'')" by (simp add: py_def)
    ultimately have "\<not> drops ?ids l"
      using x y by (simp add: drops_def has_subgraph_id_def)
    then show ?thesis using assms(1) by (simp add: kept_lines_iff)
  qed
  have 4: "re_match class_rx (py ''class X,Y; style X fill:#000'') = Some [py ''X,Y'']"
    unfolding re_match_class by (simp add: eval_defs)
  show ?thesis using 1 2 3 4 scenario_E_targets passes_eq [of diagram] by blast
qed

theorem targets_clause_ends_at_terminator_witness:
  "py ''  class X,Y; style X fill:#000'' \<in> set (py_split NEWLINE (py ''A-->X\<newline>  class X,Y; style X fill:#000''))
   \<and> startswith (strip (py ''  class X,Y; style X fill:#000'')) (py ''class '')
   \<and> strip (py ''  class X,Y; style X fill:#000'')
       = py ''class'' @ py '' '' @ py ''X,Y'' @ [SEMICOLON] @ py '' style X fill:#000''
   \<and> list_all isspace (py '' '')
   \<and> \<not> isspace (hd (py ''X,Y''))
   \<and> list_all (\<lambda>c. c \<noteq> SEMICOLON \<and> c \<noteq> COLON) (py ''X,Y'')
   \<and> re_match class_rx (strip (py ''  class X,Y; style X fill:#000'')) = Some [py ''X,Y'']
   \<and> clean_invalid_class_statements (py ''A-->X\<newline>  class X,Y; style X fill:#000'')
       = Inr (py ''A-->X\<newline>  class X,Y; style X fill:#000'')"
proof -
  let ?d = "py ''A-->X\<newline>  class X,Y; style X fill:#000''"
  let ?l = "py ''  class X,Y; style X fill:#000''"
  have h1: "?l \<in> set (py_split NEWLINE ?d)" by (simp add: py_def)
  have h2: "startswith (strip ?l) (py ''class '')" by (simp add: eval_defs)
  have h3: "strip ?l = py ''class'' @ py '' '' @ py ''X,Y'' @ [SEMICOLON] @ py '' style X fill:#000''"
    by (simp add: eval_defs)
  have h4: "py '' '' \<noteq> []" by (simp add: py_def)
  have h5: "\<forall>c \<in> set (py '' ''). isspace c" by (simp add: py_def isspace_def)
  have h6: "py ''X,Y'' \<noteq> []" by (simp add: py_def)
  have h7: "\<not> isspace (hd (py ''X,Y''))" by (simp add: py_def isspace_def)
  have h8: "\<forall>c \<in> set (py ''X,Y''). c \<noteq> SEMICOLON \<and> c \<noteq> COLON" by (simp add: py_def)
  have h9: "SEMICOLON = SEMICOLON \<or> SEMICOLON = COLON" by simp
  have c: "clean_invalid_class_statements ?d = Inr ?d"
    unfolding clean_eq by (simp add: eval_defs)
  from targets_clause_ends_at_terminator [OF h1 h2 h3 h4 h5 h6 h7 h8 h9]
  have "re_match class_rx (strip ?l) = Some [py ''X,Y'']" by blast
  then show ?thesis using h1 h2 h3 h5 h7 h8 c by (simp add: list_all_iff)
qed

end
